theory Spec2Isabelle
  imports Main "HOL-Library.Sublist"
begin

section \<open>Text: Python \<open>str\<close> as a list of code points\<close>

text \<open>
  The script \<^verbatim>\<open>scripts/fetch_contributions.py\<close> works on Python \<open>str\<close> values, which
  are sequences of Unicode code points. A code point is a \<open>nat\<close> here, so that offsets
  returned by \<open>find\<close> and used by slices count what Python counts. ASCII literals of the
  source are written \<open>u ''...''\<close>.
\<close>

type_synonym str = "nat list"

definition u :: "string \<Rightarrow> str" where
  "u s = map of_char s"

definition nl :: nat where
  "nl = 10"

text \<open>\<open>sub in s\<close>.\<close>

definition contains :: "str \<Rightarrow> str \<Rightarrow> bool" where
  "contains sub s \<longleftrightarrow> sublist sub s"

text \<open>
  \<open>index_of sub s\<close> is the lowest offset at which \<open>sub\<close> starts in \<open>s\<close>.
  \<open>find s sub start\<close> is \<open>s.find(sub, start)\<close>: the lowest index not below \<open>start\<close>
  where \<open>sub\<close> occurs, \<open>-1\<close> when there is none; a negative \<open>start\<close> counts from the
  end, as in a slice.
\<close>

fun index_of :: "str \<Rightarrow> str \<Rightarrow> nat option" where
  "index_of sub [] = (if sub = [] then Some 0 else None)"
| "index_of sub (c # cs) =
     (if prefix sub (c # cs) then Some 0 else map_option Suc (index_of sub cs))"

definition find :: "str \<Rightarrow> str \<Rightarrow> int \<Rightarrow> int" where
  "find s sub start =
     (let n = int (length s);
          st = (if start < 0 then max 0 (n + start) else start)
      in if n < st then - 1
         else (case index_of sub (drop (nat st) s) of
                 None \<Rightarrow> - 1
               | Some k \<Rightarrow> st + int k))"

text \<open>
  Slices \<open>s[:j]\<close>, \<open>s[i:]\<close> and \<open>s[i:j]\<close>: an index below zero counts from the end, and
  every index is clamped to the length of the text.
\<close>

definition clamp_index :: "str \<Rightarrow> int \<Rightarrow> nat" where
  "clamp_index s i =
     (if i < 0 then nat (max 0 (int (length s) + i)) else min (nat i) (length s))"

definition slice_to :: "str \<Rightarrow> int \<Rightarrow> str" where
  "slice_to s j = take (clamp_index s j) s"

definition slice_from :: "str \<Rightarrow> int \<Rightarrow> str" where
  "slice_from s i = drop (clamp_index s i) s"

definition slice :: "str \<Rightarrow> int \<Rightarrow> int \<Rightarrow> str" where
  "slice s i j = drop (clamp_index s i) (take (clamp_index s j) s)"

text \<open>
  \<open>s.rstrip()\<close> removes the trailing white space; the code points are the ones for
  which Python's \<open>str.isspace\<close> holds.
\<close>

definition is_space :: "nat \<Rightarrow> bool" where
  "is_space c \<longleftrightarrow>
     (9 \<le> c \<and> c \<le> 13) \<or> (28 \<le> c \<and> c \<le> 32) \<or> c = 133 \<or> c = 160 \<or> c = 5760
     \<or> (8192 \<le> c \<and> c \<le> 8202) \<or> c = 8232 \<or> c = 8233 \<or> c = 8239 \<or> c = 8287
     \<or> c = 12288"

definition rstrip :: "str \<Rightarrow> str" where
  "rstrip s = rev (dropWhile is_space (rev s))"

text \<open>
  \<open>s.split(sep)\<close> for a separator of one code point; the result is never empty.
\<close>

fun split :: "nat \<Rightarrow> str \<Rightarrow> str list" where
  "split sep [] = [[]]"
| "split sep (c # cs) =
     (if c = sep then [] # split sep cs
      else (case split sep cs of
              [] \<Rightarrow> [[c]]
            | p # ps \<Rightarrow> (c # p) # ps))"

text \<open>
  \<open>s.lower()\<close> and the case folding of \<open>re.IGNORECASE\<close>, on the letters A to Z; every
  other code point is its own lower case here. Repository names are ASCII.
\<close>

definition lower_cp :: "nat \<Rightarrow> nat" where
  "lower_cp c = (if 65 \<le> c \<and> c \<le> 90 then c + 32 else c)"

definition lower :: "str \<Rightarrow> str" where
  "lower s = map lower_cp s"

section \<open>The regular expression of the fuzzy name check\<close>

text \<open>
  The pattern of the source is
  \<^verbatim>\<open>rf"\*\*\[?[^]]*{re.escape(repo_short_name)}[^]]*\]?\*\*"\<close>, searched with
  \<open>re.IGNORECASE\<close>. It is a sequence of three kinds of atoms: one code point, one
  optional code point, and any number of code points other than a given one.
  \<open>match_here\<close> tries every way the atoms can consume a prefix of the text, as the
  backtracking of \<open>re\<close> does, and \<open>re_search\<close> tries every start position.
\<close>

datatype atom = Ch nat | OptCh nat | StarNot nat

definition ci_eq :: "nat \<Rightarrow> nat \<Rightarrow> bool" where
  "ci_eq a b \<longleftrightarrow> lower_cp a = lower_cp b"

fun match_here :: "atom list \<Rightarrow> str \<Rightarrow> bool" where
  "match_here [] s = True"
| "match_here (Ch c # r) [] = False"
| "match_here (Ch c # r) (x # xs) = (ci_eq x c \<and> match_here r xs)"
| "match_here (OptCh c # r) [] = match_here r []"
| "match_here (OptCh c # r) (x # xs) =
     ((ci_eq x c \<and> match_here r xs) \<or> match_here r (x # xs))"
| "match_here (StarNot c # r) [] = match_here r []"
| "match_here (StarNot c # r) (x # xs) =
     ((\<not> ci_eq x c \<and> match_here (StarNot c # r) xs) \<or> match_here r (x # xs))"

fun re_search :: "atom list \<Rightarrow> str \<Rightarrow> bool" where
  "re_search p [] = match_here p []"
| "re_search p (x # xs) = (match_here p (x # xs) \<or> re_search p xs)"

text \<open>\<open>re.escape\<close> makes every code point of the short name match itself.\<close>

definition pattern :: "str \<Rightarrow> atom list" where
  "pattern repo_short_name =
     [Ch 42, Ch 42, OptCh 91, StarNot 93] @ map Ch repo_short_name
     @ [StarNot 93, OptCh 93, Ch 42, Ch 42]"

section \<open>Entries, messages and the merge state\<close>

record entry =
  repo :: str
  description :: str
  pr_url :: str
  pr_count :: nat

text \<open>
  \<open>categorized_entries\<close> is a dict; its items are kept in insertion order, which is the
  order the loop visits them in.
\<close>

type_synonym categorized = "(str \<times> entry list) list"

text \<open>
  The lines the script prints. Both duplicate checks print the same
  \<open>Skipping ... - already documented\<close> line; the message records which one fired.
\<close>

datatype check = ExactLink | FuzzyName

datatype msg =
    NoNewContributions
  | AddedCategory str
  | Skipping str check
  | AddedEntry str str
  | Updated
  | NoChanges
  | ErrorUpdating
  | ErrorNoToken
  | Fetching str
  | ErrorFetching
  | Found nat
  | ContributionsTo nat
  | GeneratingFor str
  | AIWarning str
  | UpdateComplete
  | NoneFound

record merge_state =
  content :: str
  modified :: bool
  out :: "msg list"

section \<open>\<open>update_projects_file\<close>\<close>

subsection \<open>Removing the old Recent Contributions section\<close>

text \<open>
  The start marker begins with \<open>##\<close>, a blank and four code points that are not ASCII
  (in the source file: U+F8FF, U+00FC, U+00DC, U+00EF).
\<close>

definition recent_marker :: str where
  "recent_marker = u ''## '' @ [63743, 252, 220, 239] @ u '' Recent Contributions''"

definition last_updated :: str where
  "last_updated = [nl] @ u ''---'' @ [nl, nl] @ u ''*Last updated:''"

definition remove_recent :: "str \<Rightarrow> str" where
  "remove_recent content0 =
     (if contains recent_marker content0 then
        (let start = find content0 recent_marker 0;
             end1 = find content0 last_updated start
         in if end1 \<noteq> - 1 then
              (let end2 = find content0 [nl] (end1 + 20)
               in if end2 \<noteq> - 1
                  then rstrip (slice_to content0 start) @ slice_from content0 end2
                  else rstrip (slice_to content0 start))
            else content0)
      else content0)"

subsection \<open>The loop over the entries of a category that exists\<close>

definition entry_line :: "entry \<Rightarrow> str" where
  "entry_line e =
     u ''- **['' @ repo e @ u ''](https://github.com/'' @ repo e @ u '')** - ''
     @ description e @ u '' ([PRs]('' @ pr_url e @ u ''))'' @ [nl]"

definition generic_names :: "str list" where
  "generic_names = [u ''galaxy'', u ''content'', u ''utils'', u ''tools'']"

definition entry_step :: "str \<Rightarrow> merge_state \<Rightarrow> entry \<Rightarrow> merge_state" where
  "entry_step category st e =
     (let section_pattern = u ''### '' @ category;
          repo_name = repo e;
          section_start = find (content st) section_pattern 0;
          next_section = find (content st) ([nl] @ u ''##'') (section_start + 1);
          section_content =
            (if next_section = - 1 then slice_from (content st) section_start
             else slice (content st) section_start next_section);
          repo_short_name = lower (last (split 47 repo_name))
      in if contains (u ''github.com/'' @ repo_name) (content st) then
           st\<lparr>out := out st @ [Skipping repo_name ExactLink]\<rparr>
         else if repo_short_name \<notin> set generic_names
                 \<and> re_search (pattern repo_short_name) (content st) then
           st\<lparr>out := out st @ [Skipping repo_name FuzzyName]\<rparr>
         else
           (let insert_pos0 = section_start + int (length section_content);
                insert_pos = (if next_section \<noteq> - 1 then next_section else insert_pos0)
            in \<lparr>content = slice_to (content st) insert_pos @ entry_line e
                           @ slice_from (content st) insert_pos,
                modified = True,
                out = out st @ [AddedEntry repo_name category]\<rparr>))"

subsection \<open>The loop over the categories\<close>

definition notable_section :: str where
  "notable_section = u ''## Notable Open-Source Contributions''"

definition category_step :: "merge_state \<Rightarrow> str \<times> entry list \<Rightarrow> merge_state" where
  "category_step st item =
     (let category = fst item;
          entries = snd item;
          section_pattern = u ''### '' @ category
      in if \<not> contains section_pattern (content st) then
           (if contains notable_section (content st) then
              (let insert_pos0 = find (content st) notable_section 0
                                 + int (length notable_section);
                   insert_pos = find (content st) [nl] insert_pos0 + 1;
                   new_section = [nl] @ u ''### '' @ category @ [nl]
                                 @ concat (map entry_line entries)
               in \<lparr>content = slice_to (content st) insert_pos @ new_section
                              @ slice_from (content st) insert_pos,
                   modified = True,
                   out = out st @ [AddedCategory category]\<rparr>)
            else st)
         else foldl (entry_step category) st entries)"

subsection \<open>The file and the run\<close>

text \<open>
  The target file holds a text, or cannot be read (\<open>None\<close>: it is missing or is not
  UTF-8), and can or cannot be opened for writing. A run leaves a trace of what it
  printed and of its accesses to the file and to the network.
\<close>

record fs =
  file_text :: "str option"
  writable :: bool

datatype event =
    Print msg
  | ReadFile
  | WriteFile str
  | WriteFailed
  | NetSearch
  | NetGenerate str

definition merge :: "str \<Rightarrow> categorized \<Rightarrow> merge_state" where
  "merge content0 categorized_entries =
     foldl category_step
       \<lparr>content = remove_recent content0, modified = False, out = []\<rparr>
       categorized_entries"

definition update_projects_file :: "categorized \<Rightarrow> fs \<Rightarrow> fs \<times> event list" where
  "update_projects_file categorized_entries f =
     (if categorized_entries = [] then (f, [Print NoNewContributions])
      else
        (case file_text f of
           None \<Rightarrow> (f, [ReadFile, Print ErrorUpdating])
         | Some content0 \<Rightarrow>
             (let st = merge content0 categorized_entries
              in if modified st then
                   (if writable f then
                      (f\<lparr>file_text := Some (content st)\<rparr>,
                       [ReadFile] @ map Print (out st)
                       @ [WriteFile (content st), Print Updated])
                    else (f, [ReadFile] @ map Print (out st)
                             @ [WriteFailed, Print ErrorUpdating]))
                 else (f, [ReadFile] @ map Print (out st) @ [Print NoChanges]))))"

section \<open>The pipeline that feeds the merge\<close>

text \<open>
  A pull request as \<open>fetch_recent_prs\<close> returns it. The search of the remote service
  and the generation of a description are outside the script: a run takes their
  answers as arguments, \<open>None\<close> standing for a call that raised.
\<close>

record pr =
  html_url :: str
  title :: str
  body :: "str option"
  repository_url :: str
  labels :: "str list"
  merged_at :: "str option"

text \<open>\<open>s.replace(old, "")\<close> for a text \<open>old\<close> that is not empty.\<close>

function remove_all :: "str \<Rightarrow> str \<Rightarrow> str" where
  "remove_all old [] = []"
| "remove_all old (c # cs) =
     (if old \<noteq> [] \<and> prefix old (c # cs)
      then remove_all old (drop (length old) (c # cs))
      else c # remove_all old cs)"
  by pat_completeness auto
termination
  by (relation "measure (\<lambda>(old, s). length s)") (auto simp: neq_Nil_conv)

text \<open>\<open>grouped[key].append(x)\<close> on a dict kept in insertion order.\<close>

fun append_to :: "str \<Rightarrow> 'a \<Rightarrow> (str \<times> 'a list) list \<Rightarrow> (str \<times> 'a list) list" where
  "append_to k x [] = [(k, [x])]"
| "append_to k x ((k', xs) # rest) =
     (if k = k' then (k', xs @ [x]) # rest else (k', xs) # append_to k x rest)"

definition group_prs_by_repo :: "str \<Rightarrow> pr list \<Rightarrow> (str \<times> pr list) list" where
  "group_prs_by_repo username prs =
     foldl (\<lambda>grouped p.
              (let repo_url = repository_url p;
                   repo_full_name = remove_all (u ''https://api.github.com/repos/'') repo_url
               in if prefix (username @ u ''/'') repo_full_name then grouped
                  else append_to repo_full_name p grouped))
       [] prs"

definition categorize_repo :: "str \<Rightarrow> str" where
  "categorize_repo repo_name =
     (let repo_lower = lower repo_name
      in if list_ex (\<lambda>x. contains x repo_lower)
              [u ''galaxyproject/galaxy'', u ''bgruening/galaxytools'',
               u ''galaxyproject/galaxy-hub'', u ''galaxyproject/galaxy-visualizations'',
               u ''galaxyproject/tools-iuc'', u ''galaxyproject/planemo'',
               u ''bgruening/docker-galaxy'']
         then u ''Galaxy Project Core''
         else if list_ex (\<lambda>x. contains x repo_lower)
                   [u ''training-material'', u ''galaxyecology'']
         then u ''Galaxy Training & Community''
         else if list_ex (\<lambda>x. contains x repo_lower) [u ''usegalaxy-eu/'', u ''vgcn'']
         then u ''UseGalaxy.eu Infrastructure''
         else if contains (u ''research-software-ecosystem'') repo_lower
         then u ''Research Software Ecosystem''
         else u ''Other Open-Source Projects'')"

text \<open>The decimal digits of a number, as an f-string prints it.\<close>

function str_of_nat :: "nat \<Rightarrow> str" where
  "str_of_nat n = (if n < 10 then [48 + n] else str_of_nat (n div 10) @ [48 + n mod 10])"
  by pat_completeness auto
termination
  by (relation "measure id") auto

definition fallback_description :: "nat \<Rightarrow> str" where
  "fallback_description n =
     u ''Contributed '' @ str_of_nat n @ u '' pull request''
     @ (if 1 < n then u ''s'' else []) @ u '' to improve functionality and fix issues.''"

text \<open>
  \<open>generate_project_entries\<close>: the repositories are visited by falling number of pull
  requests (\<open>sorted\<close> is stable, also with \<open>reverse=True\<close>). The state of the loop is
  the dict built so far and the trace. The description generator sees at most fifteen
  pull requests; an answer that is empty or missing is replaced by the fallback.
\<close>

definition generate_step ::
  "str \<Rightarrow> (str \<Rightarrow> pr list \<Rightarrow> str option) \<Rightarrow> categorized \<times> event list
   \<Rightarrow> str \<times> pr list \<Rightarrow> categorized \<times> event list" where
  "generate_step username ai acc item =
     (let repo_name = fst item;
          prs = snd item;
          answer = ai repo_name (take 15 prs);
          description0 = (case answer of None \<Rightarrow> [] | Some d \<Rightarrow> d);
          description1 = (if description0 = [] then fallback_description (length prs)
                          else description0);
          pr_url1 = u ''https://github.com/'' @ repo_name
                    @ u ''/pulls?q=is%3Apr+author%3A'' @ username @ u ''+is%3Amerged'';
          category = categorize_repo repo_name;
          e = \<lparr>repo = repo_name, description = description1, pr_url = pr_url1,
               pr_count = length prs\<rparr>
      in (append_to category e (fst acc),
          snd acc @ [Print (GeneratingFor repo_name), NetGenerate repo_name]
          @ (case answer of None \<Rightarrow> [Print (AIWarning repo_name)] | Some d \<Rightarrow> [])))"

definition generate_project_entries ::
  "str \<Rightarrow> (str \<Rightarrow> pr list \<Rightarrow> str option) \<Rightarrow> (str \<times> pr list) list
   \<Rightarrow> categorized \<times> event list" where
  "generate_project_entries username ai prs_by_repo =
     (if prs_by_repo = [] then ([], [])
      else foldl (generate_step username ai) ([], [])
             (sort_key (\<lambda>x. - int (length (snd x))) prs_by_repo))"

text \<open>
  \<open>main\<close>. The environment maps names to values; \<open>search\<close> is the answer of the
  remote search (\<open>None\<close> when it raises; at most the first hundred hits are read).
\<close>

definition main ::
  "(str \<Rightarrow> str option) \<Rightarrow> pr list option \<Rightarrow> (str \<Rightarrow> pr list \<Rightarrow> str option) \<Rightarrow> fs
   \<Rightarrow> fs \<times> event list" where
  "main env search ai f =
     (let username = (case env (u ''GITHUB_USERNAME'') of None \<Rightarrow> u ''arash77'' | Some v \<Rightarrow> v);
          token = env (u ''GITHUB_TOKEN'')
      in if token = None \<or> token = Some [] then (f, [Print ErrorNoToken])
         else
           (let recent_prs = (case search of None \<Rightarrow> [] | Some hits \<Rightarrow> take 100 hits);
                fetched = [Print (Fetching username), NetSearch]
                          @ (case search of None \<Rightarrow> [Print ErrorFetching] | Some hits \<Rightarrow> [])
                          @ [Print (Found (length recent_prs))]
            in if recent_prs \<noteq> [] then
                 (let prs_by_repo = group_prs_by_repo username recent_prs;
                      generated = generate_project_entries username ai prs_by_repo;
                      updated = update_projects_file (fst generated) f
                  in (fst updated,
                      fetched @ [Print (ContributionsTo (length prs_by_repo))]
                      @ snd generated @ snd updated @ [Print UpdateComplete]))
               else (f, fetched @ [Print NoneFound])))"

text \<open>What a trace touches: the network, or the target file.\<close>

fun is_access :: "event \<Rightarrow> bool" where
  "is_access (Print m) = False"
| "is_access e = True"
section \<open>Concrete inputs\<close>

text \<open>A document with the start marker of the old section and no trailer after it.\<close>

definition doc_no_trailer :: str where
  "doc_no_trailer = u ''# T'' @ [nl] @ recent_marker @ [nl] @ u ''- old'' @ [nl]"

text \<open>
  Entries and states for the duplicate checks: a link to a repository whose name
  extends \<open>org/repo\<close>, a bold text that mentions \<open>Tools\<close>, one that mentions \<open>foo\<close>.
\<close>

definition entry_org_repo :: entry where
  "entry_org_repo =
     \<lparr>repo = u ''org/repo'', description = u ''Did things.'',
      pr_url = u ''https://x/p'', pr_count = 2\<rparr>"

definition state_longer_link :: merge_state where
  "state_longer_link =
     \<lparr>content = u ''### A'' @ [nl]
        @ u ''- **[org/repo-extra](https://github.com/org/repo-extra)** - Text.'' @ [nl],
      modified = False, out = []\<rparr>"



definition entry_foo :: entry where
  "entry_foo =
     \<lparr>repo = u ''org/Foo'', description = u ''Did things.'',
      pr_url = u ''https://x/p'', pr_count = 1\<rparr>"


text \<open>
  Documents for the merge: one that already links \<open>org/repo\<close> under category A and
  has no category B; one whose category A is followed by the next heading without a
  blank line; one that is the anchor heading alone, with no line break after it; one
  with category A and no anchor heading.
\<close>

definition old_line :: str where
  "old_line = u ''- **[x/old](https://github.com/x/old)** - Old.''"

definition doc_linked_elsewhere :: str where
  "doc_linked_elsewhere =
     notable_section @ [nl] @ [nl] @ u ''### A'' @ [nl]
     @ u ''- **[org/repo](https://github.com/org/repo)** - Old text.'' @ [nl]"

definition doc_no_blank_line :: str where
  "doc_no_blank_line =
     notable_section @ [nl] @ [nl] @ u ''### A'' @ [nl] @ old_line @ [nl]
     @ u ''## Next'' @ [nl]"

definition doc_anchor_only :: str where
  "doc_anchor_only = notable_section"

definition doc_no_anchor :: str where
  "doc_no_anchor = u ''# Projects'' @ [nl] @ [nl] @ u ''### A'' @ [nl] @ old_line @ [nl]"

definition fs_of :: "str \<Rightarrow> fs" where
  "fs_of d = \<lparr>file_text = Some d, writable = True\<rparr>"





definition entry_bar :: entry where
  "entry_bar =
     \<lparr>repo = u ''org/bar'', description = u ''Did things.'',
      pr_url = u ''https://x/p'', pr_count = 1\<rparr>"

definition doc_bold_across :: str where
  "doc_bold_across =
     notable_section @ [nl] @ [nl] @ u ''### A'' @ [nl] @ u ''** a'' @ [nl]
     @ u ''## foo **'' @ [nl]"

definition doc_bold_cut :: str where
  "doc_bold_cut =
     notable_section @ [nl] @ [nl] @ u ''### A'' @ [nl] @ u ''** a'' @ entry_line entry_bar
     @ [nl] @ u ''## foo **'' @ [nl]"

definition entry_quoting_anchor :: entry where
  "entry_quoting_anchor =
     \<lparr>repo = u ''org/two'', description = notable_section,
      pr_url = u ''https://x/p'', pr_count = 1\<rparr>"

definition doc_only_b :: str where
  "doc_only_b = u ''### B'' @ [nl]"

definition category_two_lines :: str where
  "category_two_lines = u ''A'' @ [nl] @ u ''## x''"

definition doc_two_line_heading :: str where
  "doc_two_line_heading =
     notable_section @ [nl] @ [nl] @ u ''### A'' @ [nl] @ u ''## x'' @ [nl]"

definition doc_heading_cut :: str where
  "doc_heading_cut =
     notable_section @ [nl] @ [nl] @ u ''### A'' @ entry_line entry_org_repo @ [nl]
     @ u ''## x'' @ [nl]"

section \<open>The fuzzy name check in the words of the specification\<close>


section \<open>What a trace and the printed lines tell\<close>

fun is_write :: "event \<Rightarrow> bool" where
  "is_write (WriteFile c) = True"
| "is_write e = False"




section \<open>Notions for the proofs about repeated runs\<close>




section \<open>Facts about searching and slicing\<close>

lemma index_of_Some: "index_of sub s = Some k \<Longrightarrow> k \<le> length s \<and> prefix sub (drop k s)"
proof (induction s arbitrary: k)
  case Nil
  then show ?case by (auto split: if_splits)
next
  case (Cons c cs)
  then show ?case by (auto split: if_splits)
qed

lemma index_of_None: "index_of sub s = None \<longleftrightarrow> \<not> sublist sub s"
  by (induction s) (auto simp: sublist_Cons_right)

lemma find_nonneg:
  assumes "0 \<le> st" "sub \<noteq> []"
  shows "find s sub st =
     (case index_of sub (drop (nat st) s) of None \<Rightarrow> - 1 | Some k \<Rightarrow> st + int k)"
  using assms by (cases sub) (auto simp: find_def)

lemma find_from_0:
  "find s sub 0 = (case index_of sub s of None \<Rightarrow> - 1 | Some k \<Rightarrow> int k)"
  by (simp add: find_def split: option.splits)

lemma find_ge: "- 1 \<le> find s sub st"
  by (auto simp: find_def Let_def split: option.splits)

lemma contains_index_of: "contains sub s \<longleftrightarrow> index_of sub s \<noteq> None"
  using index_of_None[of sub s] by (auto simp: contains_def)

lemma contains_find: "contains sub s \<longleftrightarrow> find s sub 0 \<noteq> - 1"
  by (cases "index_of sub s") (simp_all add: contains_index_of find_from_0)

lemma find_none_iff:
  assumes "0 \<le> st" "sub \<noteq> []"
  shows "find s sub st = - 1 \<longleftrightarrow> \<not> contains sub (drop (nat st) s)"
  using assms
  by (cases "index_of sub (drop (nat st) s)") (simp_all add: find_nonneg contains_index_of)

lemma find_found:
  assumes "find s sub st = r" "r \<noteq> - 1" "0 \<le> st"
  shows "st \<le> r \<and> r \<le> int (length s) \<and> prefix sub (drop (nat r) s)"
proof -
  from assms have le: "st \<le> int (length s)"
    by (auto simp: find_def split: if_splits)
  from assms le obtain k where k: "index_of sub (drop (nat st) s) = Some k" "r = st + int k"
    by (auto simp: find_def split: option.splits)
  from index_of_Some[OF k(1)] have "k \<le> length s - nat st" "prefix sub (drop (nat st + k) s)"
    by (simp_all add: add.commute)
  with k(2) assms(3) le show ?thesis
    by (auto simp: nat_add_distrib)
qed

lemma slice_to_nonneg: "0 \<le> i \<Longrightarrow> slice_to s i = take (nat i) s"
  by (simp add: slice_to_def clamp_index_def min_def)

lemma slice_from_nonneg: "0 \<le> i \<Longrightarrow> slice_from s i = drop (nat i) s"
  by (simp add: slice_from_def clamp_index_def min_def)

lemma slice_nonneg: "0 \<le> i \<Longrightarrow> 0 \<le> j \<Longrightarrow> slice s i j = drop (nat i) (take (nat j) s)"
  by (simp add: slice_def clamp_index_def min_def)

lemma contains_prefix_part: "contains (a @ b) s \<Longrightarrow> contains a s"
  unfolding contains_def sublist_def by auto

subsection \<open>Rewrite rules that evaluate a search from left to right\<close>

lemma prefix_lazy: "prefix (x # xs) (y # ys) = (if x = y then prefix xs ys else False)"
  by simp

lemma sublist_lazy:
  "sublist (x # xs) (y # ys) = (if prefix (x # xs) (y # ys) then True else sublist (x # xs) ys)"
  by (auto simp: sublist_Cons_right)

lemma match_here_lazy:
  "match_here (Ch c # r) (x # xs) = (if ci_eq x c then match_here r xs else False)"
  "match_here (OptCh c # r) (x # xs) =
     (if match_here r (x # xs) then True else if ci_eq x c then match_here r xs else False)"
  "match_here (StarNot c # r) (x # xs) =
     (if match_here r (x # xs) then True
      else if ci_eq x c then False else match_here (StarNot c # r) xs)"
  by auto

lemma re_search_lazy:
  "re_search p (x # xs) = (if match_here p (x # xs) then True else re_search p xs)"
  by simp

lemmas text_eval = u_def nl_def find_nonneg contains_def Let_def
  slice_to_nonneg slice_from_nonneg slice_nonneg
  rstrip_def is_space_def recent_marker_def last_updated_def notable_section_def
  entry_line_def generic_names_def lower_def lower_cp_def ci_eq_def pattern_def
  prefix_lazy sublist_lazy match_here_lazy re_search_lazy

lemmas eager_rules = prefix_Cons match_here.simps(3,5,7) re_search.simps(2)

section \<open>The missing credential\<close>

text \<open>
  Claim C9. When the environment has no \<open>GITHUB_TOKEN\<close> (or an empty one, which
  \<open>if not token\<close> treats alike), \<open>main\<close> prints the configuration error and returns:
  the file is as it was, and the trace holds no access to the network or to the file.
\<close>

theorem main_without_token:
  assumes "env (u ''GITHUB_TOKEN'') = None \<or> env (u ''GITHUB_TOKEN'') = Some []"
  shows "main env search ai f = (f, [Print ErrorNoToken])
         \<and> \<not> list_ex is_access (snd (main env search ai f))"
  using assms by (auto simp: main_def Let_def)

theorem main_without_token_witness:
  "(\<lambda>k. if k = u ''GITHUB_USERNAME'' then Some (u ''someone'') else None) (u ''GITHUB_TOKEN'') = None
   \<and> main (\<lambda>k. if k = u ''GITHUB_USERNAME'' then Some (u ''someone'') else None)
        (Some []) (\<lambda>r p. None) \<lparr>file_text = Some (u ''text''), writable = True\<rparr>
     = (\<lparr>file_text = Some (u ''text''), writable = True\<rparr>, [Print ErrorNoToken])"
  using main_without_token
    [of "\<lambda>k. if k = u ''GITHUB_USERNAME'' then Some (u ''someone'') else None"
        "Some []" "\<lambda>r p. None" "\<lparr>file_text = Some (u ''text''), writable = True\<rparr>"]
  by (simp add: u_def)

text \<open>With a credential the first thing after the greeting is the remote search.\<close>

lemma main_with_token_searches:
  assumes "env (u ''GITHUB_TOKEN'') = Some t" "t \<noteq> []"
  shows "NetSearch \<in> set (snd (main env search ai f))"
  using assms by (auto simp: main_def Let_def)

section \<open>Pruning the old section\<close>

text \<open>
  Claim C3, as amended. When the start marker of the old section is in the document
  and no \<open>Last updated\<close> trailer occurs from the first start marker on, the pruning
  step returns the document as it is.
\<close>

theorem remove_recent_without_trailer:
  assumes "contains recent_marker c"
    and "\<not> contains last_updated (slice_from c (find c recent_marker 0))"
  shows "remove_recent c = c"
proof -
  let ?start = "find c recent_marker 0"
  from assms(1) have ne: "?start \<noteq> - 1" by (simp add: contains_find)
  with find_ge[of c recent_marker 0] have nonneg: "0 \<le> ?start" by linarith
  have "last_updated \<noteq> []" by (simp add: last_updated_def)
  with nonneg assms(2) have "find c last_updated ?start = - 1"
    by (simp add: find_none_iff slice_from_nonneg)
  then show ?thesis by (simp add: remove_recent_def Let_def)
qed

lemma doc_no_trailer_start: "find doc_no_trailer recent_marker 0 = 4"
  by (simp add: doc_no_trailer_def text_eval del: eager_rules)

lemma doc_no_trailer_hyps:
  "contains recent_marker doc_no_trailer
   \<and> \<not> contains last_updated (slice_from doc_no_trailer (find doc_no_trailer recent_marker 0))"
  unfolding doc_no_trailer_start
  by (simp add: doc_no_trailer_def text_eval del: eager_rules)

theorem remove_recent_without_trailer_witness:
  "contains recent_marker doc_no_trailer
   \<and> \<not> contains last_updated (slice_from doc_no_trailer (find doc_no_trailer recent_marker 0))
   \<and> remove_recent doc_no_trailer = doc_no_trailer"
  using remove_recent_without_trailer[of doc_no_trailer] doc_no_trailer_hyps by simp

text \<open>
  The claim as it was stated fails on that document: the result is neither the text
  before the start marker nor that text with its trailing white space removed.
\<close>

theorem truncation_counterexample:
  "contains recent_marker doc_no_trailer
   \<and> \<not> contains last_updated (slice_from doc_no_trailer (find doc_no_trailer recent_marker 0))
   \<and> remove_recent doc_no_trailer \<noteq> slice_to doc_no_trailer (find doc_no_trailer recent_marker 0)
   \<and> remove_recent doc_no_trailer
       \<noteq> rstrip (slice_to doc_no_trailer (find doc_no_trailer recent_marker 0))"
proof -
  have r: "remove_recent doc_no_trailer = doc_no_trailer"
    unfolding remove_recent_def doc_no_trailer_start
    by (simp add: doc_no_trailer_def text_eval del: eager_rules)
  have "doc_no_trailer \<noteq> slice_to doc_no_trailer 4"
    "doc_no_trailer \<noteq> rstrip (slice_to doc_no_trailer 4)"
    by (simp_all add: doc_no_trailer_def text_eval del: eager_rules)
  with r doc_no_trailer_hyps show ?thesis
    unfolding doc_no_trailer_start by simp
qed

section \<open>The duplicate checks of an entry\<close>

text \<open>
  Claim C10. The exact check is a plain substring test: when the document holds a
  link \<open>github.com/<identifier><tail>\<close> to a repository whose name extends the entry's
  identifier, the entry is skipped as already documented.
\<close>

theorem exact_check_accepts_longer_link:
  assumes "contains (u ''github.com/'' @ repo e @ tail) (content st)"
  shows "entry_step category st e = st\<lparr>out := out st @ [Skipping (repo e) ExactLink]\<rparr>"
proof -
  from assms have "contains ((u ''github.com/'' @ repo e) @ tail) (content st)" by simp
  then have "contains (u ''github.com/'' @ repo e) (content st)"
    by (rule contains_prefix_part)
  then show ?thesis by (simp add: entry_step_def Let_def)
qed

theorem exact_check_accepts_longer_link_witness:
  "contains (u ''github.com/'' @ repo entry_org_repo @ u ''-extra'') (content state_longer_link)
   \<and> \<not> contains (u ''[org/repo]'') (content state_longer_link)
   \<and> entry_step (u ''A'') state_longer_link entry_org_repo
       = state_longer_link\<lparr>out := [Skipping (u ''org/repo'') ExactLink]\<rparr>"
proof -
  have h: "contains (u ''github.com/'' @ repo entry_org_repo @ u ''-extra'')
             (content state_longer_link)"
    by (simp add: entry_org_repo_def state_longer_link_def text_eval del: eager_rules)
  have n: "\<not> contains (u ''[org/repo]'') (content state_longer_link)"
    by (simp add: state_longer_link_def text_eval del: eager_rules)
  from exact_check_accepts_longer_link[OF h, of "u ''A''"] h n show ?thesis
    by (simp add: entry_org_repo_def state_longer_link_def)
qed

subsection \<open>The regular expression finds exactly the bold mentions\<close>



















subsection \<open>The stoplist and the fuzzy check\<close>







section \<open>Runs on concrete documents\<close>

lemmas merge_eval = merge_def remove_recent_def category_step_def entry_step_def

lemma merge_linked_elsewhere:
  "merge doc_linked_elsewhere [(u ''B'', [entry_org_repo])] =
     \<lparr>content = notable_section @ [nl] @ [nl] @ u ''### B'' @ [nl]
        @ entry_line entry_org_repo @ [nl] @ u ''### A'' @ [nl]
        @ u ''- **[org/repo](https://github.com/org/repo)** - Old text.'' @ [nl],
      modified = True, out = [AddedCategory (u ''B'')]\<rparr>"
  by (simp add: doc_linked_elsewhere_def entry_org_repo_def merge_eval text_eval
      del: eager_rules)

lemma merge_no_blank_line:
  "merge doc_no_blank_line [(u ''A'', [entry_org_repo])] =
     \<lparr>content = notable_section @ [nl] @ [nl] @ u ''### A'' @ [nl] @ old_line
        @ entry_line entry_org_repo @ [nl] @ u ''## Next'' @ [nl],
      modified = True, out = [AddedEntry (u ''org/repo'') (u ''A'')]\<rparr>"
  by (simp add: doc_no_blank_line_def old_line_def entry_org_repo_def merge_eval text_eval
      del: eager_rules)

lemma merge_anchor_only:
  "merge doc_anchor_only [(u ''B'', [entry_org_repo])] =
     \<lparr>content = [nl] @ u ''### B'' @ [nl] @ entry_line entry_org_repo @ notable_section,
      modified = True, out = [AddedCategory (u ''B'')]\<rparr>"
  by (simp add: doc_anchor_only_def entry_org_repo_def merge_eval text_eval
      del: eager_rules)

lemma merge_no_anchor:
  "merge doc_no_anchor [(u ''A'', [entry_org_repo])] =
     \<lparr>content = doc_no_anchor @ entry_line entry_org_repo,
      modified = True, out = [AddedEntry (u ''org/repo'') (u ''A'')]\<rparr>"
  by (simp add: doc_no_anchor_def old_line_def entry_org_repo_def merge_eval text_eval
      del: eager_rules)



lemma merge_no_anchor_other_category:
  "remove_recent doc_no_anchor = doc_no_anchor
   \<and> \<not> contains notable_section doc_no_anchor
   \<and> \<not> contains (u ''### B'') doc_no_anchor"
  by (simp add: doc_no_anchor_def old_line_def remove_recent_def text_eval del: eager_rules)

section \<open>Three runs that go against the specification\<close>

text \<open>
  Claim C1 at a failing input. The document links \<open>github.com/org/repo\<close> under
  category A and has no section B. Merging the entry \<open>org/repo\<close> under category B
  creates the section with the entry in it: the branch that creates a section makes
  no duplicate check, unlike the branch for a section that exists.
\<close>

theorem new_section_repeats_documented_entry:
  "contains (u ''github.com/'' @ repo entry_org_repo) doc_linked_elsewhere
   \<and> update_projects_file [(u ''B'', [entry_org_repo])] (fs_of doc_linked_elsewhere) =
       (fs_of (notable_section @ [nl] @ [nl] @ u ''### B'' @ [nl]
               @ entry_line entry_org_repo @ [nl] @ u ''### A'' @ [nl]
               @ u ''- **[org/repo](https://github.com/org/repo)** - Old text.'' @ [nl]),
        [ReadFile, Print (AddedCategory (u ''B'')),
         WriteFile (notable_section @ [nl] @ [nl] @ u ''### B'' @ [nl]
               @ entry_line entry_org_repo @ [nl] @ u ''### A'' @ [nl]
               @ u ''- **[org/repo](https://github.com/org/repo)** - Old text.'' @ [nl]),
         Print Updated])"
proof -
  have "contains (u ''github.com/'' @ repo entry_org_repo) doc_linked_elsewhere"
    by (simp add: doc_linked_elsewhere_def entry_org_repo_def text_eval del: eager_rules)
  then show ?thesis
    by (simp add: update_projects_file_def merge_linked_elsewhere fs_of_def)
qed

text \<open>
  Claim C6 at a failing input. Category A holds one bullet line and the next heading
  follows without a blank line. The new entry is inserted in front of the line break
  that ends the old bullet line, so the old line and the new one become a single line:
  the old line is no longer a line of the document.
\<close>

theorem append_joins_last_line:
  "update_projects_file [(u ''A'', [entry_org_repo])] (fs_of doc_no_blank_line) =
     (fs_of (notable_section @ [nl] @ [nl] @ u ''### A'' @ [nl] @ old_line
             @ entry_line entry_org_repo @ [nl] @ u ''## Next'' @ [nl]),
      [ReadFile, Print (AddedEntry (u ''org/repo'') (u ''A'')),
       WriteFile (notable_section @ [nl] @ [nl] @ u ''### A'' @ [nl] @ old_line
             @ entry_line entry_org_repo @ [nl] @ u ''## Next'' @ [nl]),
       Print Updated])
   \<and> old_line \<in> set (split nl doc_no_blank_line)
   \<and> old_line \<notin> set (split nl (notable_section @ [nl] @ [nl] @ u ''### A'' @ [nl] @ old_line
             @ entry_line entry_org_repo @ [nl] @ u ''## Next'' @ [nl]))"
proof -
  have "old_line \<in> set (split nl doc_no_blank_line)"
    by (simp add: doc_no_blank_line_def old_line_def text_eval del: eager_rules)
  moreover have "old_line \<notin> set (split nl (notable_section @ [nl] @ [nl] @ u ''### A'' @ [nl]
             @ old_line @ entry_line entry_org_repo @ [nl] @ u ''## Next'' @ [nl]))"
    by (simp add: old_line_def entry_org_repo_def text_eval del: eager_rules)
  ultimately show ?thesis
    by (simp add: update_projects_file_def merge_no_blank_line fs_of_def)
qed

text \<open>
  Claim C7 at a failing input. The document is the anchor heading with no line break
  after it. \<open>find\<close> of the line break answers \<open>-1\<close>, the insert position becomes
  \<open>0\<close>, and the new section is put in front of the anchor heading, not after its line.
\<close>

theorem new_section_before_anchor:
  "contains notable_section doc_anchor_only
   \<and> \<not> contains (u ''### B'') doc_anchor_only
   \<and> update_projects_file [(u ''B'', [entry_org_repo])] (fs_of doc_anchor_only) =
       (fs_of ([nl] @ u ''### B'' @ [nl] @ entry_line entry_org_repo @ notable_section),
        [ReadFile, Print (AddedCategory (u ''B'')),
         WriteFile ([nl] @ u ''### B'' @ [nl] @ entry_line entry_org_repo @ notable_section),
         Print Updated])"
proof -
  have "contains notable_section doc_anchor_only \<and> \<not> contains (u ''### B'') doc_anchor_only"
    by (simp add: doc_anchor_only_def text_eval del: eager_rules)
  then show ?thesis
    by (simp add: update_projects_file_def merge_anchor_only fs_of_def)
qed

subsection \<open>The new section when a line break follows the anchor heading\<close>

lemma take_append_short: "n \<le> length a \<Longrightarrow> take n (a @ b) = take n a"
  by simp

lemma index_of_first:
  assumes "sub \<noteq> []" "\<not> sublist sub (pre @ butlast sub)"
  shows "index_of sub (pre @ sub @ t) = Some (length pre)"
  using assms(2)
proof (induction pre)
  case Nil
  from assms(1) obtain x xs where "sub @ t = x # xs" "prefix sub (x # xs)"
    by (cases sub) auto
  then show ?case by simp
next
  case (Cons x pre)
  from Cons.prems have no: "\<not> sublist sub (pre @ butlast sub)"
    and np: "\<not> prefix sub (x # pre @ butlast sub)"
    by (simp_all add: sublist_Cons_right)
  have "\<not> prefix sub (x # pre @ sub @ t)"
  proof
    assume "prefix sub (x # pre @ sub @ t)"
    then obtain z where z: "x # pre @ sub @ t = sub @ z" unfolding prefix_def by blast
    have len: "length sub \<le> length (x # pre @ butlast sub)" by simp
    from assms(1) have "sub = butlast sub @ [last sub]" by simp
    then have "x # pre @ sub @ t = (x # pre @ butlast sub) @ (last sub # t)"
      by (metis append_Cons append_assoc append_Nil)
    with z have eq: "sub @ z = (x # pre @ butlast sub) @ (last sub # t)" by simp
    have "sub = take (length sub) (sub @ z)" by simp
    also from eq have "\<dots> = take (length sub) ((x # pre @ butlast sub) @ (last sub # t))"
      by (rule arg_cong)
    also from len have "\<dots> = take (length sub) (x # pre @ butlast sub)"
      by (rule take_append_short)
    finally have "sub = take (length sub) (x # pre @ butlast sub)" .
    then have "prefix sub (x # pre @ butlast sub)"
      by (metis take_is_prefix)
    with np show False by simp
  qed
  with Cons.IH[OF no] show ?case by simp
qed

lemma index_of_line_end: "nl \<notin> set r \<Longrightarrow> index_of [nl] (r @ nl # post) = Some (length r)"
  by (induction r) auto

text \<open>
  When the section of the category is missing, the anchor heading occurs first at the
  end of \<open>pre\<close>, and its line ends in a line break, then the new section (an empty
  line, the sub-heading, one bullet line for the entry) is put right after that line
  break. This is claim C7 on the documents in which a line break follows the anchor.
\<close>

lemma new_section_after_anchor_line:
  assumes doc: "content st = pre @ notable_section @ r @ nl # post"
    and first: "\<not> contains notable_section (pre @ butlast notable_section)"
    and line: "nl \<notin> set r"
    and missing: "\<not> contains (u ''### '' @ category) (content st)"
  shows "category_step st (category, [e]) =
     \<lparr>content = pre @ notable_section @ r @ [nl]
                 @ ([nl] @ u ''### '' @ category @ [nl] @ entry_line e) @ post,
      modified = True, out = out st @ [AddedCategory category]\<rparr>"
proof -
  let ?c = "content st"
  let ?k = "length pre + length notable_section"
  have ne: "notable_section \<noteq> []" by (simp add: notable_section_def u_def)
  from first have "index_of notable_section (pre @ notable_section @ (r @ nl # post))
      = Some (length pre)"
    unfolding contains_def by (rule index_of_first[OF ne])
  then have start: "find ?c notable_section 0 = int (length pre)"
    by (simp add: doc find_from_0)
  then have anchor: "contains notable_section ?c" by (simp add: contains_find)
  have "drop ?k ?c = r @ nl # post" by (simp add: doc)
  with index_of_line_end[OF line, of post]
  have "index_of [nl] (drop ?k ?c) = Some (length r)" by simp
  then have "find ?c [nl] (int ?k) = int ?k + int (length r)"
    by (simp add: find_nonneg nat_int_add)
  with start have pos: "find ?c [nl] (find ?c notable_section 0 + int (length notable_section)) + 1
      = int (Suc (?k + length r))"
    by simp
  have t: "take (Suc (?k + length r)) ?c = pre @ notable_section @ r @ [nl]"
    and d: "drop (Suc (?k + length r)) ?c = post"
    by (simp_all add: doc)
  from missing anchor show ?thesis
    unfolding category_step_def Let_def pos
    by (simp add: slice_to_nonneg slice_from_nonneg t d del: of_nat_Suc of_nat_add)
qed

section \<open>A document without the anchor heading\<close>

lemma rstrip_prefix: "prefix (rstrip s) s"
proof -
  have "suffix (dropWhile is_space (rev s)) (rev s)" by (rule suffix_dropWhile)
  then show ?thesis by (simp add: rstrip_def suffix_to_prefix)
qed

lemma sublist_in_sublist: "sublist a b \<Longrightarrow> sublist b c \<Longrightarrow> sublist a c"
proof -
  assume "sublist a b" "sublist b c"
  then obtain p q p' q' where "b = p @ a @ q" "c = p' @ b @ q'"
    unfolding sublist_def by blast
  then have "c = (p' @ p) @ a @ (q @ q')" by simp
  then show ?thesis unfolding sublist_def by blast
qed

lemma sublist_across:
  assumes "x \<notin> set s" "sublist s (a @ x # b)"
  shows "sublist s a \<or> sublist s b"
proof -
  from assms(1) have p: "prefix s (x # b) \<Longrightarrow> s = []"
    by (cases s) auto
  from assms(2) consider "sublist s a" | "sublist s (x # b)"
    | s1 s2 where "s = s1 @ s2" "suffix s1 a" "prefix s2 (x # b)"
    by (auto simp: sublist_append)
  then show ?thesis
  proof cases
    case 1
    then show ?thesis by simp
  next
    case 2
    with p show ?thesis by (auto simp: sublist_Cons_right)
  next
    case 3
    from assms(1) 3(1) have "x \<notin> set s2" by simp
    with 3(3) have "s2 = []" by (cases s2) auto
    with 3 show ?thesis by auto
  qed
qed

lemma remove_recent_shape:
  "remove_recent c = c \<or> prefix (remove_recent c) c
   \<or> (\<exists>a b. prefix a c \<and> suffix (nl # b) c \<and> remove_recent c = a @ nl # b)"
proof (cases "contains recent_marker c")
  case False
  then show ?thesis by (simp add: remove_recent_def)
next
  case True
  let ?start = "find c recent_marker 0"
  let ?end1 = "find c last_updated ?start"
  let ?end2 = "find c [nl] (?end1 + 20)"
  from True have "?start \<noteq> - 1" by (simp add: contains_find)
  from find_found[OF refl this] have start: "0 \<le> ?start" by simp
  then have pre: "prefix (rstrip (slice_to c ?start)) c"
    using rstrip_prefix[of "take (nat ?start) c"] take_is_prefix[of "nat ?start" c]
    by (auto simp: slice_to_nonneg)
  show ?thesis
  proof (cases "?end1 = - 1")
    case True
    then show ?thesis using \<open>contains recent_marker c\<close> by (simp add: remove_recent_def Let_def)
  next
    case e1: False
    from find_found[OF refl e1 start] start have end1: "0 \<le> ?end1 + 20" by simp
    show ?thesis
    proof (cases "?end2 = - 1")
      case True
      with e1 \<open>contains recent_marker c\<close> pre show ?thesis
        by (simp add: remove_recent_def Let_def)
    next
      case e2: False
      from find_found[OF refl e2 end1] end1
      have "0 \<le> ?end2" and "prefix [nl] (drop (nat ?end2) c)" by simp_all
      then obtain b where b: "slice_from c ?end2 = nl # b"
        by (auto simp: slice_from_nonneg prefix_def)
      then have "suffix (nl # b) c"
        by (metis slice_from_def suffix_drop)
      moreover from e1 e2 \<open>contains recent_marker c\<close> b
      have "remove_recent c = rstrip (slice_to c ?start) @ nl # b"
        by (simp add: remove_recent_def Let_def)
      ultimately show ?thesis using pre by blast
    qed
  qed
qed

lemma remove_recent_adds_no_line_text:
  assumes "contains s (remove_recent c)" "nl \<notin> set s"
  shows "contains s c"
proof -
  from remove_recent_shape[of c] consider "remove_recent c = c" | "prefix (remove_recent c) c"
    | a b where "prefix a c" "suffix (nl # b) c" "remove_recent c = a @ nl # b"
    by blast
  then show ?thesis
  proof cases
    case 1
    with assms show ?thesis by simp
  next
    case 2
    then have "sublist (remove_recent c) c" by (rule prefix_imp_sublist)
    with assms(1) show ?thesis
      unfolding contains_def by (rule sublist_in_sublist)
  next
    case 3
    from assms 3(3) have "sublist s (a @ nl # b)"
      by (simp add: contains_def)
    with assms(2) have "sublist s a \<or> sublist s b"
      by (rule sublist_across)
    moreover from 3(1) have "sublist a c" by (rule prefix_imp_sublist)
    moreover have "sublist b c"
    proof -
      from 3(2) obtain p where "c = p @ nl # b" unfolding suffix_def by blast
      then have "c = (p @ [nl]) @ b @ []" by simp
      then show ?thesis unfolding sublist_def by blast
    qed
    ultimately have "sublist s c"
      by (auto intro: sublist_in_sublist)
    then show ?thesis by (simp add: contains_def)
  qed
qed

lemma notable_section_one_line: "nl \<notin> set notable_section"
  by (simp add: notable_section_def u_def nl_def)

lemma category_steps_idle:
  assumes "\<not> contains notable_section (content st)"
    and "\<forall>item\<in>set cats. \<not> contains (u ''### '' @ fst item) (content st)"
  shows "foldl category_step st cats = st"
  using assms
proof (induction cats)
  case Nil
  then show ?case by simp
next
  case (Cons item cats)
  then have "category_step st item = st"
    by (simp add: category_step_def Let_def)
  with Cons show ?case by simp
qed


text \<open>
  Claim C4, as amended. For a document that does not contain the anchor heading and
  that, once the old section is pruned, contains none of the category headings of the
  input, the run leaves the file as it is, writes nothing and adds nothing.
\<close>

theorem no_anchor_no_heading_unchanged:
  assumes "file_text f = Some d"
    and "\<not> contains notable_section d"
    and "\<forall>item\<in>set cats. \<not> contains (u ''### '' @ fst item) (remove_recent d)"
  shows "fst (update_projects_file cats f) = f
         \<and> filter is_write (snd (update_projects_file cats f)) = []
         \<and> merge d cats = \<lparr>content = remove_recent d, modified = False, out = []\<rparr>"
proof -
  from assms(2) have "\<not> contains notable_section (remove_recent d)"
    using remove_recent_adds_no_line_text[OF _ notable_section_one_line] by blast
  with assms(3) have m: "merge d cats = \<lparr>content = remove_recent d, modified = False, out = []\<rparr>"
    unfolding merge_def by (intro category_steps_idle) simp_all
  with assms(1) show ?thesis
    by (simp add: update_projects_file_def)
qed

theorem no_anchor_no_heading_unchanged_witness:
  "file_text (fs_of doc_no_anchor) = Some doc_no_anchor
   \<and> \<not> contains notable_section doc_no_anchor
   \<and> \<not> contains (u ''### '' @ u ''B'') (remove_recent doc_no_anchor)
   \<and> update_projects_file [(u ''B'', [entry_org_repo])] (fs_of doc_no_anchor)
       = (fs_of doc_no_anchor, [ReadFile, Print NoChanges])"
proof -
  have h: "file_text (fs_of doc_no_anchor) = Some doc_no_anchor"
    "\<not> contains notable_section doc_no_anchor"
    "\<forall>item\<in>set [(u ''B'', [entry_org_repo])].
         \<not> contains (u ''### '' @ fst item) (remove_recent doc_no_anchor)"
    using merge_no_anchor_other_category by (simp_all add: fs_of_def u_def)
  from no_anchor_no_heading_unchanged[OF h] h show ?thesis
    by (simp add: update_projects_file_def fs_of_def)
qed

text \<open>
  The claim as it was stated fails when the section of the category exists: the
  anchor heading is looked for only when the section is missing.
\<close>

theorem no_anchor_counterexample:
  "\<not> contains notable_section doc_no_anchor
   \<and> fst (update_projects_file [(u ''A'', [entry_org_repo])] (fs_of doc_no_anchor))
       = fs_of (doc_no_anchor @ entry_line entry_org_repo)
   \<and> doc_no_anchor @ entry_line entry_org_repo \<noteq> doc_no_anchor
   \<and> filter is_write (snd (update_projects_file [(u ''A'', [entry_org_repo])]
                             (fs_of doc_no_anchor)))
       = [WriteFile (doc_no_anchor @ entry_line entry_org_repo)]"
  using merge_no_anchor_other_category
  by (simp add: update_projects_file_def merge_no_anchor fs_of_def entry_line_def)

section \<open>Writing the file\<close>







lemma unreadable_file_not_written:
  assumes "file_text f = None"
  shows "fst (update_projects_file cats f) = f
         \<and> filter is_write (snd (update_projects_file cats f)) = []"
  using assms by (simp add: update_projects_file_def)




section \<open>Running the merge twice\<close>

subsection \<open>Splices keep every text that has no line break\<close>







subsection \<open>One entry of a category that exists\<close>







subsection \<open>One category\<close>






subsection \<open>A document in which every heading and every link is present\<close>







subsection \<open>The second run\<close>







text \<open>
  Each of the other conditions is needed as well. A fuzzy match that runs across
  the end of the section is cut by the entry inserted there, so that the entry skipped
  in the first run is added in the second.
\<close>

lemma fuzzy_skip_not_repeated:
  "merge doc_bold_across [(u ''A'', [entry_foo, entry_bar])] =
     \<lparr>content = doc_bold_cut, modified = True,
      out = [Skipping (u ''org/Foo'') FuzzyName, AddedEntry (u ''org/bar'') (u ''A'')]\<rparr>
   \<and> out (merge doc_bold_cut [(u ''A'', [entry_foo, entry_bar])]) =
       [AddedEntry (u ''org/Foo'') (u ''A''), Skipping (u ''org/bar'') ExactLink]"
  by (simp add: doc_bold_across_def doc_bold_cut_def entry_foo_def entry_bar_def
      merge_eval text_eval del: eager_rules)

text \<open>
  Without the anchor heading a category is passed over; when an entry added later
  quotes the anchor heading, the second run creates the category.
\<close>

lemma anchor_appears_later:
  "merge doc_only_b [(u ''A'', [entry_org_repo]), (u ''B'', [entry_quoting_anchor])] =
     \<lparr>content = doc_only_b @ entry_line entry_quoting_anchor, modified = True,
      out = [AddedEntry (u ''org/two'') (u ''B'')]\<rparr>
   \<and> out (merge (doc_only_b @ entry_line entry_quoting_anchor)
             [(u ''A'', [entry_org_repo]), (u ''B'', [entry_quoting_anchor])]) =
       [AddedCategory (u ''A''), Skipping (u ''org/two'') ExactLink]"
  by (simp add: doc_only_b_def entry_org_repo_def entry_quoting_anchor_def
      merge_eval text_eval del: eager_rules)

text \<open>
  A category name of two lines whose second line starts a heading is cut by the
  entry inserted in front of that heading; the second run does not find the category.
\<close>

lemma heading_cut_by_entry:
  "merge doc_two_line_heading [(category_two_lines, [entry_org_repo])] =
     \<lparr>content = doc_heading_cut, modified = True,
      out = [AddedEntry (u ''org/repo'') category_two_lines]\<rparr>
   \<and> out (merge doc_heading_cut [(category_two_lines, [entry_org_repo])]) =
       [AddedCategory category_two_lines]"
  by (simp add: doc_two_line_heading_def doc_heading_cut_def category_two_lines_def
      entry_org_repo_def merge_eval text_eval del: eager_rules)

end
